theory Spec2Isabelle
  imports Main "HOL-Library.AList"
begin

section \<open>The elimination-voting backend (src/backend/main.py)\<close>

text \<open>
  The backend keeps one in-memory \<open>DataStore\<close> and mutates it from its HTTP handlers.
  Each handler is embedded as a function from the store (and the request) to either an
  error or the new store. The broadcasts to the web sockets read the store and never
  write it, so they are left out. Python dictionaries keep insertion order, and the
  handlers iterate over them, so a dictionary is an association list whose keys are
  distinct; \<open>d[k] = v\<close> is \<open>AList.update\<close> and an in-place change of \<open>d[k]\<close> is
  \<open>AList.map_entry\<close>.
\<close>

subsection \<open>Strings\<close>

text \<open>
  Names are modelled as ASCII text: \<open>str.lower\<close> maps \<open>A..Z\<close> to \<open>a..z\<close>, and
  \<open>str.strip\<close> removes the characters Python counts as white space below 128
  (codes 9 to 13 and 28 to 32) from both ends.
\<close>

definition lower_char :: "char \<Rightarrow> char" where
  "lower_char c =
     (let n = (of_char c :: nat) in if 65 \<le> n \<and> n \<le> 90 then char_of (n + 32) else c)"

definition lower :: "string \<Rightarrow> string" where
  "lower s = map lower_char s"

definition is_space :: "char \<Rightarrow> bool" where
  "is_space c = (let n = (of_char c :: nat) in (9 \<le> n \<and> n \<le> 13) \<or> (28 \<le> n \<and> n \<le> 32))"

definition strip :: "string \<Rightarrow> string" where
  "strip s = rev (dropWhile is_space (rev (dropWhile is_space s)))"

text \<open>The characters of the pattern in \<open>validate_name\<close>:
  less-than, greater-than, double quote, quote, slash, backslash, semicolon, ampersand,
  bar, backquote and dollar.\<close>

definition illegal_chars :: "char list" where
  "illegal_chars = map char_of [60, 62, 34, 39, 47, 92, 59, 38, 124, 96, 36 :: nat]"

text \<open>The decimal numeral that an f-string prints for a natural number.\<close>

definition digit_char :: "nat \<Rightarrow> char" where
  "digit_char d = char_of (48 + d)"

function str_nat :: "nat \<Rightarrow> string" where
  "str_nat n = (if n < 10 then [digit_char n] else str_nat (n div 10) @ [digit_char (n mod 10)])"
  by pat_completeness auto
termination
  by (relation "measure (\<lambda>n. n)") auto

declare str_nat.simps [simp del]

definition option_id :: "nat \<Rightarrow> string" where
  "option_id i = ''option_'' @ str_nat i"

subsection \<open>Data\<close>

text \<open>A value of \<open>store.users\<close>: the dictionary built in \<open>register_user\<close>.\<close>

record user =
  name :: string
  voted :: bool
  vote_option :: "string option"
  eliminated :: bool
  joined_at :: string

text \<open>\<open>VoteOption\<close>; the field \<open>id\<close> is \<open>oid\<close> here and \<open>name\<close> is \<open>oname\<close>.\<close>

record vote_option_rec =
  oid :: string
  oname :: string
  votes :: int

datatype status = Waiting | Voting | Result

text \<open>An entry of \<open>store.round_history\<close>.\<close>

record history_entry =
  h_round :: int
  h_options :: "(string \<times> int) list"
  is_tie :: bool
  survivors :: "string list"
  h_eliminated :: "string list"

text \<open>\<open>DataStore\<close>.\<close>

record store =
  users :: "(string \<times> user) list"
  options :: "(string \<times> vote_option_rec) list"
  game_status :: status
  round_no :: int
  eliminated_users :: "string set"
  round_history :: "history_entry list"

text \<open>
  The failures. An \<open>HTTPException\<close> carries its status code and its detail; the details
  are Chinese sentences in the source and are named here after what they say:
  \<^item> \<open>UserNotFound\<close>: line 353, \<open>UserEliminated\<close>: line 359, \<open>AlreadyVoted\<close>: line 363,
  \<^item> \<open>NotInVotingPhase\<close>: lines 367 and 509, \<open>InvalidOption\<close>: line 371,
  \<^item> \<open>NoPresetOptions\<close>: line 433, \<open>OptionsNotSet\<close>: line 483,
  \<^item> \<open>VotingNotEnded\<close>: line 538.
  \<open>RequestValidationError\<close> is the rejection of a request body by its pydantic model,
  \<open>ValueError\<close> is what \<open>max\<close> raises on an empty sequence and \<open>KeyError\<close> what a
  dictionary raises on a missing key.
\<close>

datatype detail =
  UserNotFound | UserEliminated | AlreadyVoted | NotInVotingPhase | InvalidOption
  | NoPresetOptions | OptionsNotSet | VotingNotEnded

datatype error = HTTPException nat detail | RequestValidationError | ValueError | KeyError

subsection \<open>DataStore\<close>

definition reset :: "store" where
  "reset = \<lparr>users = [], options = [], game_status = Waiting, round_no = 1,
            eliminated_users = {}, round_history = []\<rparr>"

fun find_token :: "string \<Rightarrow> (string \<times> user) list \<Rightarrow> string option" where
  "find_token name_lower [] = None"
| "find_token name_lower ((token, u) # rest) =
     (if lower (name u) = name_lower then Some token else find_token name_lower rest)"

definition get_token_by_name :: "store \<Rightarrow> string \<Rightarrow> string option" where
  "get_token_by_name s nm = find_token (strip (lower nm)) (users s)"

subsection \<open>Registration\<close>

text \<open>
  \<open>UserRegisterRequest\<close>: the length bounds of the field are checked on the raw string,
  then \<open>validate_name\<close> strips it and rejects an empty name or one with an illegal
  character. The result is \<open>request.name\<close>.
\<close>

definition validate_name :: "string \<Rightarrow> error + string" where
  "validate_name raw =
     (if length raw < 1 \<or> 20 < length raw then Inl RequestValidationError
      else let v = strip raw in
        if v = [] then Inl RequestValidationError
        else if \<exists>c \<in> set v. c \<in> set illegal_chars then Inl RequestValidationError
        else Inr v)"

datatype message = WelcomeBack | NameVerified

record register_response =
  success :: bool
  message :: message
  token :: string
  user_name :: string
  resp_options :: "(string \<times> string) list option"

definition current_options :: "store \<Rightarrow> (string \<times> string) list option" where
  "current_options s =
     (if game_status s = Voting then Some (map (\<lambda>(k, opt). (oid opt, oname opt)) (options s))
      else None)"

text \<open>
  \<open>register_user\<close>, from the validated name. \<open>uuid\<close> is the string that \<open>uuid.uuid4()\<close>
  returns when it is called and \<open>now\<close> the time stamp. A token is true in Python when it
  is not the empty string.
\<close>

definition register_user ::
  "store \<Rightarrow> string \<Rightarrow> string \<Rightarrow> string \<Rightarrow> error + (register_response \<times> store)" where
  "register_user s request_name uuid now =
     (case get_token_by_name s request_name of
        Some existing_token \<Rightarrow>
          if existing_token \<noteq> [] then
            (case map_of (users s) existing_token of
               None \<Rightarrow> Inl KeyError
             | Some u \<Rightarrow>
                 Inr (\<lparr>success = True, message = WelcomeBack, token = existing_token,
                       user_name = name u, resp_options = current_options s\<rparr>, s))
          else
            (let s' = s\<lparr>users := AList.update uuid
                        \<lparr>name = request_name, voted = False, vote_option = None,
                         eliminated = False, joined_at = now\<rparr> (users s)\<rparr>
             in Inr (\<lparr>success = True, message = NameVerified, token = uuid,
                      user_name = request_name, resp_options = current_options s'\<rparr>, s'))
      | None \<Rightarrow>
          (let s' = s\<lparr>users := AList.update uuid
                      \<lparr>name = request_name, voted = False, vote_option = None,
                       eliminated = False, joined_at = now\<rparr> (users s)\<rparr>
           in Inr (\<lparr>success = True, message = NameVerified, token = uuid,
                    user_name = request_name, resp_options = current_options s'\<rparr>, s')))"

subsection \<open>Counts\<close>

text \<open>
  The three numbers that \<open>get_config\<close> and \<open>get_results\<close> report: the participants still
  in the game, those of them who have voted, and the sum of the tallies.
\<close>

definition user_count :: "store \<Rightarrow> nat" where
  "user_count s = length (filter (\<lambda>(tok, u). \<not> eliminated u) (users s))"

definition voted_count :: "store \<Rightarrow> nat" where
  "voted_count s = length (filter (\<lambda>(tok, u). voted u \<and> \<not> eliminated u) (users s))"

definition total_votes :: "store \<Rightarrow> int" where
  "total_votes s = sum_list (map (\<lambda>(k, opt). votes opt) (options s))"

subsection \<open>Voting\<close>

definition submit_vote :: "store \<Rightarrow> string \<Rightarrow> string \<Rightarrow> error + store" where
  "submit_vote s tok option_id' =
     (case map_of (users s) tok of
        None \<Rightarrow> Inl (HTTPException 404 UserNotFound)
      | Some u \<Rightarrow>
          if eliminated u then Inl (HTTPException 403 UserEliminated)
          else if voted u then Inl (HTTPException 400 AlreadyVoted)
          else if game_status s \<noteq> Voting then Inl (HTTPException 400 NotInVotingPhase)
          else if option_id' \<notin> fst ` set (options s) then Inl (HTTPException 400 InvalidOption)
          else Inr (s\<lparr>options := AList.map_entry option_id' (\<lambda>opt. opt\<lparr>votes := votes opt + 1\<rparr>)
                                    (options s),
                      users := AList.map_entry tok
                                 (\<lambda>u. u\<lparr>voted := True, vote_option := Some option_id'\<rparr>)
                                 (users s)\<rparr>))"

subsection \<open>Host operations\<close>

text \<open>The loop that resets the vote of every participant who is not eliminated.\<close>

definition reset_vote_status :: "(string \<times> user) list \<Rightarrow> (string \<times> user) list" where
  "reset_vote_status us =
     map (\<lambda>(tok, u). (tok, if \<not> eliminated u then u\<lparr>voted := False, vote_option := None\<rparr> else u)) us"

text \<open>The loop over \<open>enumerate(names)\<close> that stores \<open>option_{i+1}\<close> for the name at index \<open>i\<close>.\<close>

fun install_options ::
  "(string \<times> vote_option_rec) list \<Rightarrow> nat \<Rightarrow> string list \<Rightarrow> (string \<times> vote_option_rec) list" where
  "install_options opts i [] = opts"
| "install_options opts i (nm # nms) =
     install_options
       (AList.update (option_id (i + 1)) \<lparr>oid = option_id (i + 1), oname = nm, votes = 0\<rparr> opts)
       (i + 1) nms"

text \<open>
  \<open>load_preset_options\<close>. The configuration file is read again at every call, so what
  \<open>get_round_options(store.round)\<close> returns is an input: \<open>None\<close> or a list of names.
\<close>

definition load_preset_options :: "store \<Rightarrow> string list option \<Rightarrow> error + store" where
  "load_preset_options s preset_options =
     (case preset_options of
        None \<Rightarrow> Inl (HTTPException 404 NoPresetOptions)
      | Some [] \<Rightarrow> Inl (HTTPException 404 NoPresetOptions)
      | Some names \<Rightarrow>
          Inr (s\<lparr>options := install_options [] 0 names, users := reset_vote_status (users s)\<rparr>))"

text \<open>\<open>create_options\<close>; \<open>CreateOptionsRequest\<close> accepts two to four names.\<close>

definition create_options :: "store \<Rightarrow> string list \<Rightarrow> error + store" where
  "create_options s names =
     (if length names < 2 \<or> 4 < length names then Inl RequestValidationError
      else Inr (s\<lparr>options := install_options [] 0 names, users := reset_vote_status (users s)\<rparr>))"

definition start_voting :: "store \<Rightarrow> error + store" where
  "start_voting s =
     (if options s = [] then Inl (HTTPException 400 OptionsNotSet)
      else Inr (s\<lparr>game_status := Voting\<rparr>))"

definition end_voting :: "store \<Rightarrow> error + store" where
  "end_voting s =
     (if game_status s \<noteq> Voting then Inl (HTTPException 400 NotInVotingPhase)
      else Inr (s\<lparr>game_status := Result\<rparr>))"

subsection \<open>The next round\<close>

text \<open>
  The two loops over \<open>store.users.items()\<close>. Each returns the users after the loop, the
  tokens appended to \<open>eliminated_tokens\<close> and the names appended to \<open>survivors\<close>.
\<close>

fun tie_loop :: "(string \<times> user) list \<Rightarrow> (string \<times> user) list \<times> string list \<times> string list" where
  "tie_loop [] = ([], [], [])"
| "tie_loop ((tok, u) # rest) =
     (case tie_loop rest of (us, elim, surv) \<Rightarrow>
        if eliminated u then ((tok, u) # us, elim, surv)
        else if \<not> voted u then ((tok, u\<lparr>eliminated := True\<rparr>) # us, tok # elim, surv)
        else ((tok, u) # us, elim, name u # surv))"

definition in_majority :: "string option \<Rightarrow> string list \<Rightarrow> bool" where
  "in_majority choice majority_options =
     (case choice of None \<Rightarrow> False | Some k \<Rightarrow> k \<in> set majority_options)"

fun majority_loop ::
  "string list \<Rightarrow> (string \<times> user) list \<Rightarrow> (string \<times> user) list \<times> string list \<times> string list" where
  "majority_loop majority_options [] = ([], [], [])"
| "majority_loop majority_options ((tok, u) # rest) =
     (case majority_loop majority_options rest of (us, elim, surv) \<Rightarrow>
        if eliminated u then ((tok, u) # us, elim, surv)
        else if \<not> voted u then ((tok, u\<lparr>eliminated := True\<rparr>) # us, tok # elim, surv)
        else if in_majority (vote_option u) majority_options
          then ((tok, u\<lparr>eliminated := True\<rparr>) # us, tok # elim, surv)
        else ((tok, u) # us, elim, name u # surv))"

text \<open>\<open>[store.users[t]["name"] for t in eliminated_tokens]\<close>.\<close>

fun lookup_names :: "(string \<times> user) list \<Rightarrow> string list \<Rightarrow> error + string list" where
  "lookup_names us [] = Inr []"
| "lookup_names us (t # ts) =
     (case map_of us t of
        None \<Rightarrow> Inl KeyError
      | Some u \<Rightarrow> (case lookup_names us ts of Inl e \<Rightarrow> Inl e | Inr ns \<Rightarrow> Inr (name u # ns)))"

definition vote_counts :: "store \<Rightarrow> int list" where
  "vote_counts s = map (\<lambda>(k, opt). votes opt) (options s)"

text \<open>\<open>len(set(vote_counts)) == 1 and vote_counts[0] > 0\<close>; the second test is only
  evaluated on a list that is not empty.\<close>

definition compute_is_tie :: "int list \<Rightarrow> bool" where
  "compute_is_tie vcs =
     (length (remdups vcs) = 1 \<and> (case vcs of [] \<Rightarrow> False | v # _ \<Rightarrow> 0 < v))"

text \<open>\<open>max(opt.votes for opt in store.options.values())\<close>.\<close>

definition max_votes :: "store \<Rightarrow> error + int" where
  "max_votes s = (case vote_counts s of [] \<Rightarrow> Inl ValueError | v # vs \<Rightarrow> Inr (fold max vs v))"

definition majority_options :: "store \<Rightarrow> int \<Rightarrow> string list" where
  "majority_options s m = map (\<lambda>(k, opt). oid opt) (filter (\<lambda>(k, opt). votes opt = m) (options s))"

text \<open>The elimination step: both branches, giving the three results of the loop.\<close>

definition eliminate ::
  "store \<Rightarrow> error + ((string \<times> user) list \<times> string list \<times> string list)" where
  "eliminate s =
     (if compute_is_tie (vote_counts s) then Inr (tie_loop (users s))
      else (case max_votes s of
              Inl e \<Rightarrow> Inl e
            | Inr m \<Rightarrow> Inr (majority_loop (majority_options s m) (users s))))"

definition next_round :: "store \<Rightarrow> string list option \<Rightarrow> error + store" where
  "next_round s new_options =
     (if game_status s \<noteq> Result then Inl (HTTPException 400 VotingNotEnded)
      else
        (case eliminate s of
           Inl e \<Rightarrow> Inl e
         | Inr (us, eliminated_tokens, survs) \<Rightarrow>
             (case lookup_names us eliminated_tokens of
                Inl e \<Rightarrow> Inl e
              | Inr eliminated_names \<Rightarrow>
                  Inr (s\<lparr>users := reset_vote_status us,
                         eliminated_users := eliminated_users s \<union> set eliminated_tokens,
                         round_history := round_history s @
                           [\<lparr>h_round = round_no s,
                             h_options = map (\<lambda>(k, opt). (oname opt, votes opt)) (options s),
                             is_tie = compute_is_tie (vote_counts s),
                             survivors = survs,
                             h_eliminated = eliminated_names\<rparr>],
                         round_no := round_no s + 1,
                         game_status := Waiting,
                         options := (case new_options of
                                       None \<Rightarrow> []
                                     | Some [] \<Rightarrow> []
                                     | Some names \<Rightarrow> install_options [] 0 names)\<rparr>))))"

text \<open>
  The rule of the round in one predicate, for stating what \<open>next_round\<close> does: whether
  a participant who is still in the game is put out by this round.
\<close>

definition condemned :: "store \<Rightarrow> user \<Rightarrow> bool" where
  "condemned s u =
     (if compute_is_tie (vote_counts s) then \<not> voted u
      else \<not> voted u \<or> in_majority (vote_option u) (majority_options s (Max (set (vote_counts s)))))"

definition after_round :: "store \<Rightarrow> user \<Rightarrow> user" where
  "after_round s u =
     (if eliminated u then u
      else if condemned s u then u\<lparr>eliminated := True\<rparr>
      else u\<lparr>voted := False, vote_option := None\<rparr>)"

subsection \<open>Runs\<close>

text \<open>
  One request to the backend. \<open>Register\<close> carries the raw name, the value \<open>uuid.uuid4()\<close>
  would return and the time stamp; \<open>LoadPreset\<close> carries what the configuration file
  gives for the current round.
\<close>

datatype event =
  Register string string string
  | Vote string string
  | CreateOptions "string list"
  | LoadPreset "string list option"
  | StartVoting
  | EndVoting
  | NextRound "string list option"
  | Reset

definition step :: "store \<Rightarrow> event \<Rightarrow> error + store" where
  "step s e =
     (case e of
        Register raw uuid now \<Rightarrow>
          (case validate_name raw of
             Inl err \<Rightarrow> Inl err
           | Inr nm \<Rightarrow> (case register_user s nm uuid now of
                         Inl err \<Rightarrow> Inl err | Inr (r, s') \<Rightarrow> Inr s'))
      | Vote tok k \<Rightarrow> submit_vote s tok k
      | CreateOptions names \<Rightarrow> create_options s names
      | LoadPreset preset \<Rightarrow> load_preset_options s preset
      | StartVoting \<Rightarrow> start_voting s
      | EndVoting \<Rightarrow> end_voting s
      | NextRound new_options \<Rightarrow> next_round s new_options
      | Reset \<Rightarrow> Inr reset)"

text \<open>A request that fails raises before it writes, so the store stays as it was.\<close>

definition apply_event :: "store \<Rightarrow> event \<Rightarrow> store" where
  "apply_event s e = (case step s e of Inl err \<Rightarrow> s | Inr s' \<Rightarrow> s')"

fun exec :: "store \<Rightarrow> event list \<Rightarrow> store" where
  "exec s [] = s"
| "exec s (e # es) = exec (apply_event s e) es"

text \<open>
  \<open>uuid.uuid4()\<close> returns a string that is not empty and is not a token already in use.
  A list of requests is admissible from a store when every registration in it carries
  such a value.
\<close>

definition uuid_ok :: "store \<Rightarrow> event \<Rightarrow> bool" where
  "uuid_ok s e =
     (case e of
        Register raw uuid now \<Rightarrow> uuid \<noteq> [] \<and> uuid \<notin> fst ` set (users s)
      | _ \<Rightarrow> True)"

fun admissible :: "store \<Rightarrow> event list \<Rightarrow> bool" where
  "admissible s [] = True"
| "admissible s (e # es) = (uuid_ok s e \<and> admissible (apply_event s e) es)"

subsection \<open>Two sample sessions\<close>

text \<open>
  Five participants register (the second with a leading blank). In the first round
  four of them vote two against two, and Eve does not vote. In the second round Ann and
  Bob vote for the first option, Cy for the second, and Dee does not vote.
\<close>

definition evs_round1 :: "event list" where
  "evs_round1 =
     [Register ''Ann'' ''t1'' ''09:00'', Register '' Bob'' ''t2'' ''09:01'',
      Register ''Cy'' ''t3'' ''09:02'', Register ''Dee'' ''t4'' ''09:03'',
      Register ''Eve'' ''t5'' ''09:04'',
      CreateOptions [''X'', ''Y''], StartVoting,
      Vote ''t1'' ''option_1'', Vote ''t2'' ''option_1'',
      Vote ''t3'' ''option_2'', Vote ''t4'' ''option_2'', EndVoting]"

definition evs_round2 :: "event list" where
  "evs_round2 =
     [NextRound (Some [''Red'', ''Blue'']), StartVoting,
      Vote ''t1'' ''option_1'', Vote ''t2'' ''option_1'', Vote ''t3'' ''option_2'', EndVoting]"

text \<open>A round in which nobody votes.\<close>

definition evs_silent :: "event list" where
  "evs_silent =
     [Register ''Ann'' ''t1'' ''09:00'', Register ''Bob'' ''t2'' ''09:01'',
      CreateOptions [''X'', ''Y''], StartVoting, EndVoting]"

definition silent_store :: store where
  "silent_store = exec reset evs_silent"

definition voting_store :: store where
  "voting_store = exec reset (evs_round1 @ butlast evs_round2)"

definition tie_store :: store where
  "tie_store = exec reset evs_round1"

definition majority_store :: store where
  "majority_store = exec reset (evs_round1 @ evs_round2)"

section \<open>Properties\<close>

subsection \<open>Facts about strings\<close>

lemma is_space_lower_char: "is_space (lower_char c) = is_space c"
  by (auto simp: is_space_def lower_char_def Let_def)

lemma dropWhile_lower:
  "dropWhile is_space (map lower_char s) = map lower_char (dropWhile is_space s)"
  by (induction s) (auto simp: is_space_lower_char)

lemma strip_lower: "strip (lower s) = lower (strip s)"
  by (simp add: strip_def lower_def dropWhile_lower rev_map)

lemma dropWhile_rev_dropWhile:
  "dropWhile P (rev (dropWhile P (rev (dropWhile P s)))) = rev (dropWhile P (rev (dropWhile P s)))"
  by (metis (no_types, lifting) ext Nil_is_rev_conv dropWhile_eq_Nil_conv
    dropWhile_eq_self_iff dropWhile_idem dropWhile_last hd_rev last_rev)

lemma strip_idem: "strip (strip s) = strip s"
  by (simp add: strip_def dropWhile_rev_dropWhile)

lemma validate_name_stripped: "validate_name raw = Inr v \<Longrightarrow> strip (lower v) = lower v"
  by (auto simp: validate_name_def Let_def strip_lower strip_idem split: if_splits)

lemma digit_val: "d < 10 \<Longrightarrow> (of_char (digit_char d) :: nat) - 48 = d"
  by (simp add: digit_char_def)

lemma str_nat_inverse: "foldl (\<lambda>a c. 10 * a + ((of_char c :: nat) - 48)) 0 (str_nat n) = n"
proof (induction n rule: str_nat.induct)
  case (1 n)
  show ?case
  proof (cases "n < 10")
    case True
    then show ?thesis by (simp add: str_nat.simps [of n] digit_val)
  next
    case False
    with 1 show ?thesis by (simp add: str_nat.simps [of n] digit_val)
  qed
qed

lemma str_nat_inj: "str_nat m = str_nat n \<Longrightarrow> m = n"
  by (metis str_nat_inverse)

lemma option_id_inj [simp]: "option_id m = option_id n \<longleftrightarrow> m = n"
  by (auto simp: option_id_def dest: str_nat_inj)

subsection \<open>The loops of the next round\<close>

lemma tie_loop_eq:
  "tie_loop us =
     (map (\<lambda>(t, u). (t, if \<not> eliminated u \<and> \<not> voted u then u\<lparr>eliminated := True\<rparr> else u)) us,
      map fst (filter (\<lambda>(t, u). \<not> eliminated u \<and> \<not> voted u) us),
      map (\<lambda>(t, u). name u) (filter (\<lambda>(t, u). \<not> eliminated u \<and> voted u) us))"
  by (induction us rule: tie_loop.induct) auto

lemma majority_loop_eq:
  "majority_loop m us =
     (map (\<lambda>(t, u). (t, if \<not> eliminated u \<and> (\<not> voted u \<or> in_majority (vote_option u) m)
                          then u\<lparr>eliminated := True\<rparr> else u)) us,
      map fst (filter (\<lambda>(t, u). \<not> eliminated u \<and> (\<not> voted u \<or> in_majority (vote_option u) m)) us),
      map (\<lambda>(t, u). name u)
        (filter (\<lambda>(t, u). \<not> eliminated u \<and> \<not> (\<not> voted u \<or> in_majority (vote_option u) m)) us))"
  by (induction m us rule: majority_loop.induct) auto

lemma vote_counts_Nil [simp]: "vote_counts s = [] \<longleftrightarrow> options s = []"
  by (simp add: vote_counts_def)

lemma max_votes_eq:
  "options s \<noteq> [] \<Longrightarrow> max_votes s = Inr (Max (set (vote_counts s)))"
proof (cases "vote_counts s")
  case Nil
  assume "options s \<noteq> []"
  with Nil show ?thesis by simp
next
  case (Cons v vs)
  have "fold max vs v = Max (set (v # vs))" by (simp only: Max.set_eq_fold)
  with Cons show ?thesis by (simp add: max_votes_def)
qed

lemma max_votes_empty: "options s = [] \<Longrightarrow> max_votes s = Inl ValueError"
  by (simp add: max_votes_def vote_counts_def)

lemma lookup_names_sub:
  "distinct (map fst us) \<Longrightarrow> set xs \<subseteq> set us \<Longrightarrow>
   lookup_names us (map fst xs) = Inr (map (\<lambda>(t, u). name u) xs)"
  by (induction xs) (auto)

lemma update_fresh: "k \<notin> fst ` set al \<Longrightarrow> AList.update k v al = al @ [(k, v)]"
  by (induction al) auto

lemma install_options_eq:
  "\<forall>j > i. option_id j \<notin> fst ` set opts \<Longrightarrow>
   install_options opts i names =
     opts @ map (\<lambda>(j, nm). (option_id (j + 1), \<lparr>oid = option_id (j + 1), oname = nm, votes = 0\<rparr>))
              (enumerate i names)"
proof (induction names arbitrary: opts i)
  case Nil
  then show ?case by simp
next
  case (Cons nm nms)
  let ?r = "\<lparr>oid = option_id (i + 1), oname = nm, votes = 0\<rparr>"
  have fresh: "option_id (i + 1) \<notin> fst ` set opts" using Cons.prems by simp
  have upd: "AList.update (option_id (i + 1)) ?r opts = opts @ [(option_id (i + 1), ?r)]"
    by (rule update_fresh [OF fresh])
  have next_fresh: "\<forall>j > i + 1. option_id j \<notin> fst ` set (opts @ [(option_id (i + 1), ?r)])"
    using Cons.prems by auto
  show ?case
    using Cons.IH [OF next_fresh] upd by simp
qed

lemma install_options_fresh:
  "install_options [] 0 names =
     map (\<lambda>(j, nm). (option_id (j + 1), \<lparr>oid = option_id (j + 1), oname = nm, votes = 0\<rparr>))
       (enumerate 0 names)"
  using install_options_eq [of 0 "[]" names] by simp

lemma eliminate_eq:
  "options s \<noteq> [] \<Longrightarrow>
   eliminate s = Inr
     (map (\<lambda>(t, u). (t, if \<not> eliminated u \<and> condemned s u then u\<lparr>eliminated := True\<rparr> else u)) (users s),
      map fst (filter (\<lambda>(t, u). \<not> eliminated u \<and> condemned s u) (users s)),
      map (\<lambda>(t, u). name u) (filter (\<lambda>(t, u). \<not> eliminated u \<and> \<not> condemned s u) (users s)))"
  by (simp add: eliminate_def condemned_def tie_loop_eq majority_loop_eq max_votes_eq)

lemma lookup_names_marked:
  assumes "distinct (map fst us)"
  shows "lookup_names (map (\<lambda>(t, u). (t, if Q u then u\<lparr>eliminated := True\<rparr> else u)) us)
           (map fst (filter (\<lambda>(t, u). P u) us))
         = Inr (map (\<lambda>(t, u). name u) (filter (\<lambda>(t, u). P u) us))"
proof -
  let ?g = "\<lambda>(t, u). (t, if Q u then u\<lparr>eliminated := True\<rparr> else u)"
  let ?xs = "map ?g (filter (\<lambda>(t, u). P u) us)"
  have keys: "map fst (map ?g us) = map fst us" by (induction us) auto
  have d: "distinct (map fst (map ?g us))" using assms by (simp only: keys)
  have sub: "set ?xs \<subseteq> set (map ?g us)" by auto
  have k: "map fst ?xs = map fst (filter (\<lambda>(t, u). P u) us)" by (induction us) auto
  have n: "map (\<lambda>(t, u). name u) ?xs = map (\<lambda>(t, u). name u) (filter (\<lambda>(t, u). P u) us)"
    by (induction us) auto
  show ?thesis using lookup_names_sub [OF d sub] by (simp only: k n)
qed

lemma reset_after_mark:
  "reset_vote_status (map (\<lambda>(t, u). (t, if \<not> eliminated u \<and> condemned s u then u\<lparr>eliminated := True\<rparr> else u)) us)
   = map (\<lambda>(t, u). (t, after_round s u)) us"
  by (induction us) (auto simp: reset_vote_status_def after_round_def)

lemma next_round_ok:
  assumes "game_status s = Result" "options s \<noteq> []" "distinct (map fst (users s))"
  shows "next_round s new_options = Inr (s\<lparr>users := map (\<lambda>(t, u). (t, after_round s u)) (users s),
            eliminated_users := eliminated_users s \<union>
               set (map fst (filter (\<lambda>(t, u). \<not> eliminated u \<and> condemned s u) (users s))),
            round_history := round_history s @
               [\<lparr>h_round = round_no s,
                 h_options = map (\<lambda>(k, opt). (oname opt, votes opt)) (options s),
                 is_tie = compute_is_tie (vote_counts s),
                 survivors = map (\<lambda>(t, u). name u)
                    (filter (\<lambda>(t, u). \<not> eliminated u \<and> \<not> condemned s u) (users s)),
                 h_eliminated = map (\<lambda>(t, u). name u)
                    (filter (\<lambda>(t, u). \<not> eliminated u \<and> condemned s u) (users s))\<rparr>],
            round_no := round_no s + 1,
            game_status := Waiting,
            options := (case new_options of None \<Rightarrow> [] | Some names \<Rightarrow> install_options [] 0 names)\<rparr>)"
proof -
  have new: "(case new_options of None \<Rightarrow> [] | Some [] \<Rightarrow> [] | Some names \<Rightarrow> install_options [] 0 names)
        = (case new_options of None \<Rightarrow> [] | Some names \<Rightarrow> install_options [] 0 names)"
    by (auto split: option.splits list.splits)
  show ?thesis
    unfolding next_round_def
    by (simp add: assms(1) eliminate_eq [OF assms(2)] lookup_names_marked [OF assms(3)]
        reset_after_mark new del: install_options.simps)
qed

lemma compute_is_tie_iff:
  "compute_is_tie vcs \<longleftrightarrow> vcs \<noteq> [] \<and> (\<exists>c>0. \<forall>v \<in> set vcs. v = c)"
proof (cases vcs)
  case Nil
  then show ?thesis by (simp add: compute_is_tie_def)
next
  case (Cons v vs)
  have "card (set vcs) = 1 \<longleftrightarrow> (\<forall>x \<in> set vcs. x = v)"
    using Cons by (auto simp: card_1_singleton_iff)
  then show ?thesis
    using Cons by (auto simp: compute_is_tie_def length_remdups_card_conv simp del: remdups.simps)
qed

lemma is_tie_spec:
  "options s \<noteq> [] \<Longrightarrow>
   compute_is_tie (vote_counts s) \<longleftrightarrow> (\<exists>c>0. \<forall>(k, opt) \<in> set (options s). votes opt = c)"
  by (auto simp: compute_is_tie_iff vote_counts_def)

lemma in_majority_spec:
  "in_majority (vote_option u) (majority_options s m) \<longleftrightarrow>
   (\<exists>k \<in> set (map (\<lambda>(k, opt). oid opt) (filter (\<lambda>(k, opt). votes opt = m) (options s))). vote_option u = Some k)"
  by (auto simp: in_majority_def majority_options_def split: option.splits)

lemma Max_tallies:
  "Max (set (vote_counts s)) = Max ((\<lambda>(k, opt). votes opt) ` set (options s))"
  by (simp add: vote_counts_def)

lemma condemned_majority:
  "\<not> compute_is_tie (vote_counts s) \<Longrightarrow>
   condemned s u \<longleftrightarrow>
     (\<not> voted u \<or>
      (\<exists>k \<in> set (map (\<lambda>(k, opt). oid opt)
                 (filter (\<lambda>(k, opt). votes opt = Max ((\<lambda>(k, opt). votes opt) ` set (options s)))
                    (options s))).
          vote_option u = Some k))"
  by (simp add: condemned_def in_majority_spec Max_tallies)

lemma condemned_tie: "compute_is_tie (vote_counts s) \<Longrightarrow> condemned s u \<longleftrightarrow> \<not> voted u"
  by (simp add: condemned_def)

text \<open>
  Claim C1. When \<open>next_round\<close> runs in the result phase on a round that is not a tie,
  with \<open>maxVotes\<close> the highest tally and \<open>majoritySet\<close> the ids of the options that
  reach it, the participants put out are exactly those still in the game who did not
  vote or whose choice is in \<open>majoritySet\<close>: their flag is set, their tokens join
  \<open>eliminated_users\<close> and their names are the eliminated list of the new history entry.
  Every other participant still in the game is in its survivor list.
\<close>

theorem next_round_majority:
  assumes "game_status s = Result" and "options s \<noteq> []" and "distinct (map fst (users s))"
    and "\<not> (\<exists>c>0. \<forall>(k, opt) \<in> set (options s). votes opt = c)"
  shows "let maxVotes = Max ((\<lambda>(k, opt). votes opt) ` set (options s));
             majoritySet = set (map (\<lambda>(k, opt). oid opt) (filter (\<lambda>(k, opt). votes opt = maxVotes) (options s)));
             out = (\<lambda>u. \<not> voted u \<or> (\<exists>k \<in> majoritySet. vote_option u = Some k))
         in \<exists>s' h. next_round s new_options = Inr s' \<and>
              users s' = map (\<lambda>(t, u). (t, if eliminated u then u
                                            else if out u then u\<lparr>eliminated := True\<rparr>
                                            else u\<lparr>voted := False, vote_option := None\<rparr>)) (users s) \<and>
              eliminated_users s' = eliminated_users s \<union>
                 set (map fst (filter (\<lambda>(t, u). \<not> eliminated u \<and> out u) (users s))) \<and>
              round_history s' = round_history s @ [h] \<and>
              \<not> is_tie h \<and>
              h_eliminated h = map (\<lambda>(t, u). name u) (filter (\<lambda>(t, u). \<not> eliminated u \<and> out u) (users s)) \<and>
              survivors h = map (\<lambda>(t, u). name u) (filter (\<lambda>(t, u). \<not> eliminated u \<and> \<not> out u) (users s))"
proof -
  have nt: "\<not> compute_is_tie (vote_counts s)"
    using assms(4) is_tie_spec [OF assms(2)] by simp
  have au: "after_round s = (\<lambda>u. if eliminated u then u
       else if (\<not> voted u \<or> (\<exists>k \<in> set (map (\<lambda>(k, opt). oid opt)
                 (filter (\<lambda>(k, opt). votes opt = Max ((\<lambda>(k, opt). votes opt) ` set (options s)))
                    (options s))). vote_option u = Some k))
            then u\<lparr>eliminated := True\<rparr> else u\<lparr>voted := False, vote_option := None\<rparr>)"
    by (rule ext) (simp only: after_round_def condemned_majority [OF nt])
  show ?thesis
    unfolding Let_def next_round_ok [OF assms(1-3)]
    by (simp add: au nt condemned_majority [OF nt])
qed


text \<open>
  Claim C2. When \<open>next_round\<close> runs in the result phase, the round is recorded as a tie
  exactly when all options have the same tally and that tally is positive. In a tie the
  participants put out are exactly those still in the game who did not vote, and every
  participant still in the game who voted is a survivor, whatever the choice.
\<close>

theorem next_round_tie:
  assumes "game_status s = Result" and "options s \<noteq> []" and "distinct (map fst (users s))"
  shows "\<exists>s' h. next_round s new_options = Inr s' \<and>
           round_history s' = round_history s @ [h] \<and>
           (is_tie h \<longleftrightarrow> (\<exists>c>0. \<forall>(k, opt) \<in> set (options s). votes opt = c)) \<and>
           (is_tie h \<longrightarrow>
              users s' = map (\<lambda>(t, u). (t, if eliminated u then u
                                            else if \<not> voted u then u\<lparr>eliminated := True\<rparr>
                                            else u\<lparr>voted := False, vote_option := None\<rparr>)) (users s) \<and>
              eliminated_users s' = eliminated_users s \<union>
                 set (map fst (filter (\<lambda>(t, u). \<not> eliminated u \<and> \<not> voted u) (users s))) \<and>
              h_eliminated h =
                 map (\<lambda>(t, u). name u) (filter (\<lambda>(t, u). \<not> eliminated u \<and> \<not> voted u) (users s)) \<and>
              survivors h =
                 map (\<lambda>(t, u). name u) (filter (\<lambda>(t, u). \<not> eliminated u \<and> voted u) (users s)))"
proof (cases "compute_is_tie (vote_counts s)")
  case True
  have au: "after_round s = (\<lambda>u. if eliminated u then u
       else if \<not> voted u then u\<lparr>eliminated := True\<rparr> else u\<lparr>voted := False, vote_option := None\<rparr>)"
    by (rule ext) (simp only: after_round_def condemned_tie [OF True])
  show ?thesis
    unfolding next_round_ok [OF assms(1-3)]
    by (simp add: au is_tie_spec [OF assms(2), symmetric] condemned_tie [OF True])
next
  case False
  show ?thesis
    unfolding next_round_ok [OF assms(1-3)]
    using False by (simp add: is_tie_spec [OF assms(2), symmetric])
qed

lemma reset_vote_status_keys: "map fst (reset_vote_status us) = map fst us"
  by (induction us) (auto simp: reset_vote_status_def)

lemma map_of_after_round:
  "map_of (map (\<lambda>(t, u). (t, after_round s u)) us) t = map_option (after_round s) (map_of us t)"
  by (induction us) auto

lemma after_round_keys: "map fst (map (\<lambda>(t, u). (t, after_round s u)) us) = map fst us"
  by (induction us) auto

lemma after_round_survivor:
  "\<not> eliminated (after_round s u) \<Longrightarrow>
   \<not> voted (after_round s u) \<and> vote_option (after_round s u) = None \<and>
   \<not> eliminated u \<and> \<not> condemned s u"
  by (auto simp: after_round_def split: if_splits)

lemma after_round_eliminated: "eliminated u \<Longrightarrow> after_round s u = u"
  by (simp add: after_round_def)

lemma after_round_name [simp]: "name (after_round s u) = name u"
  by (simp add: after_round_def)

lemma eliminated_after_round:
  "eliminated (after_round s u) \<longleftrightarrow> eliminated u \<or> condemned s u"
  by (simp add: after_round_def)

lemma fst_case_pair: "fst (case x of (t, u) \<Rightarrow> (t, f u)) = fst x"
  by (cases x) simp

text \<open>
  Claim C4. When \<open>next_round\<close> runs in the result phase it appends one history entry
  with the round number, the name and tally of every option, the tie flag, the
  survivors and the eliminated; the round number grows by one; the phase is waiting; the
  options are empty, or those built from the replacement list when one is given; every
  participant still in the game has \<open>voted = False\<close> and no choice; and every participant
  who was eliminated stays as they were.
\<close>

theorem next_round_advances:
  assumes "game_status s = Result" and "options s \<noteq> []" and "distinct (map fst (users s))"
  shows "\<exists>s' h. next_round s new_options = Inr s' \<and>
           round_history s' = round_history s @ [h] \<and>
           h_round h = round_no s \<and>
           h_options h = map (\<lambda>(k, opt). (oname opt, votes opt)) (options s) \<and>
           (is_tie h \<longleftrightarrow> (\<exists>c>0. \<forall>(k, opt) \<in> set (options s). votes opt = c)) \<and>
           survivors h = map (\<lambda>(t, u). name u) (filter (\<lambda>(t, u). \<not> eliminated u) (users s')) \<and>
           h_eliminated h = map (\<lambda>(t, u). name u)
              (filter (\<lambda>(t, u). \<not> eliminated u \<and> (\<exists>u'. map_of (users s') t = Some u' \<and> eliminated u'))
                 (users s)) \<and>
           round_no s' = round_no s + 1 \<and>
           game_status s' = Waiting \<and>
           options s' = (case new_options of
                           None \<Rightarrow> []
                         | Some names \<Rightarrow>
                             map (\<lambda>(j, nm). (option_id (j + 1),
                                    \<lparr>oid = option_id (j + 1), oname = nm, votes = 0\<rparr>))
                               (enumerate 0 names)) \<and>
           map fst (users s') = map fst (users s) \<and>
           (\<forall>t u'. map_of (users s') t = Some u' \<and> \<not> eliminated u' \<longrightarrow>
                     \<not> voted u' \<and> vote_option u' = None) \<and>
           (\<forall>t u. map_of (users s) t = Some u \<and> eliminated u \<longrightarrow> map_of (users s') t = Some u)"
proof -
  let ?us' = "map (\<lambda>(t, u). (t, after_round s u)) (users s)"
  have surv: "map (\<lambda>(t, u). name u) (filter (\<lambda>(t, u). \<not> eliminated u \<and> \<not> condemned s u) us)
      = map (\<lambda>(t, u). name u) (filter (\<lambda>(t, u). \<not> eliminated u) (map (\<lambda>(t, u). (t, after_round s u)) us))"
    for us
    by (induction us) (auto simp: eliminated_after_round)
  have look: "map_of ?us' t = Some (after_round s u)" if "(t, u) \<in> set (users s)" for t u
    using that assms(3) by (simp add: map_of_after_round)
  have elim: "filter (\<lambda>(t, u). \<not> eliminated u \<and> condemned s u) (users s)
      = filter (\<lambda>(t, u). \<not> eliminated u \<and> (\<exists>u'. map_of ?us' t = Some u' \<and> eliminated u')) (users s)"
    by (rule filter_cong) (auto simp: look eliminated_after_round)
  have opts: "(case new_options of None \<Rightarrow> [] | Some names \<Rightarrow> install_options [] 0 names)
      = (case new_options of None \<Rightarrow> []
         | Some names \<Rightarrow> map (\<lambda>(j, nm). (option_id (j + 1),
                                    \<lparr>oid = option_id (j + 1), oname = nm, votes = 0\<rparr>))
                               (enumerate 0 names))"
    by (simp add: install_options_fresh split: option.splits)
  have fresh: "\<forall>t u'. map_of ?us' t = Some u' \<and> \<not> eliminated u' \<longrightarrow>
                     \<not> voted u' \<and> vote_option u' = None"
    by (auto simp: map_of_after_round dest: after_round_survivor)
  have kept: "\<forall>t u. map_of (users s) t = Some u \<and> eliminated u \<longrightarrow> map_of ?us' t = Some u"
    by (auto simp: map_of_after_round after_round_eliminated)
  show ?thesis
    unfolding next_round_ok [OF assms(1-3)]
    using fresh kept
    by (simp add: is_tie_spec [OF assms(2), symmetric] surv elim [symmetric] opts fst_case_pair
        del: install_options.simps)
qed

subsection \<open>Voting\<close>

lemma map_entry_keys: "map fst (AList.map_entry k f al) = map fst al"
  by (induction al) auto

lemma sum_votes_map_entry:
  "k \<in> fst ` set opts \<Longrightarrow>
   sum_list (map (\<lambda>(k, opt). votes opt) (AList.map_entry k (\<lambda>opt. opt\<lparr>votes := votes opt + 1\<rparr>) opts))
   = sum_list (map (\<lambda>(k, opt). votes opt) opts) + 1"
  by (induction opts) auto

lemma key_in_iff: "k \<in> fst ` set al \<longleftrightarrow> map_of al k \<noteq> None"
  by (simp add: map_of_eq_None_iff)

lemma submit_vote_ok:
  assumes "map_of (users s) tok = Some u" "\<not> eliminated u" "\<not> voted u"
    "game_status s = Voting" "map_of (options s) k = Some opt"
  shows "submit_vote s tok k =
     Inr (s\<lparr>options := AList.map_entry k (\<lambda>opt. opt\<lparr>votes := votes opt + 1\<rparr>) (options s),
            users := AList.map_entry tok (\<lambda>u. u\<lparr>voted := True, vote_option := Some k\<rparr>) (users s)\<rparr>)"
proof -
  have "k \<in> fst ` set (options s)"
    using assms(5) by (metis map_of_eq_None_iff option.distinct(1))
  then show ?thesis using assms(1-4) by (simp add: submit_vote_def)
qed

text \<open>
  Claim C7. \<open>submit_vote\<close> fails with 404 when the token is unknown, otherwise with 403
  when the participant is eliminated, otherwise with 400 (already voted) when the
  participant has voted, otherwise with 400 (not in the voting phase) when the phase is
  not voting, otherwise with 400 (invalid option) when the option is not in the option
  dictionary. The five failures are different values, and a failed request leaves the
  store as it was. Otherwise it succeeds: the tally of that option grows by one and no
  other tally changes, the participant is marked as having voted for that option and no
  other participant changes, and a second vote of that participant fails as already
  voted.
\<close>

theorem submit_vote_cases:
  "(map_of (users s) tok = None \<longrightarrow> submit_vote s tok k = Inl (HTTPException 404 UserNotFound)) \<and>
   (\<forall>u. map_of (users s) tok = Some u \<longrightarrow>
      (eliminated u \<longrightarrow> submit_vote s tok k = Inl (HTTPException 403 UserEliminated)) \<and>
      (\<not> eliminated u \<and> voted u \<longrightarrow> submit_vote s tok k = Inl (HTTPException 400 AlreadyVoted)) \<and>
      (\<not> eliminated u \<and> \<not> voted u \<and> game_status s \<noteq> Voting \<longrightarrow>
         submit_vote s tok k = Inl (HTTPException 400 NotInVotingPhase)) \<and>
      (\<not> eliminated u \<and> \<not> voted u \<and> game_status s = Voting \<and> map_of (options s) k = None \<longrightarrow>
         submit_vote s tok k = Inl (HTTPException 400 InvalidOption)) \<and>
      (\<forall>opt. \<not> eliminated u \<and> \<not> voted u \<and> game_status s = Voting \<and> map_of (options s) k = Some opt \<longrightarrow>
         (\<exists>s'. submit_vote s tok k = Inr s' \<and>
            map_of (options s') k = Some (opt\<lparr>votes := votes opt + 1\<rparr>) \<and>
            (\<forall>k'. k' \<noteq> k \<longrightarrow> map_of (options s') k' = map_of (options s) k') \<and>
            map fst (options s') = map fst (options s) \<and>
            sum_list (vote_counts s') = sum_list (vote_counts s) + 1 \<and>
            map_of (users s') tok = Some (u\<lparr>voted := True, vote_option := Some k\<rparr>) \<and>
            (\<forall>t'. t' \<noteq> tok \<longrightarrow> map_of (users s') t' = map_of (users s) t') \<and>
            map fst (users s') = map fst (users s) \<and>
            game_status s' = game_status s \<and> round_no s' = round_no s \<and>
            eliminated_users s' = eliminated_users s \<and> round_history s' = round_history s \<and>
            (\<forall>k2. submit_vote s' tok k2 = Inl (HTTPException 400 AlreadyVoted))))) \<and>
   (\<forall>e. submit_vote s tok k = Inl e \<longrightarrow> apply_event s (Vote tok k) = s) \<and>
   distinct [HTTPException 404 UserNotFound, HTTPException 403 UserEliminated,
             HTTPException 400 AlreadyVoted, HTTPException 400 NotInVotingPhase,
             HTTPException 400 InvalidOption]"
proof (intro conjI allI impI)
  fix u opt
  assume a: "map_of (users s) tok = Some u"
    and b: "\<not> eliminated u \<and> \<not> voted u \<and> game_status s = Voting \<and> map_of (options s) k = Some opt"
  let ?s' = "s\<lparr>options := AList.map_entry k (\<lambda>opt. opt\<lparr>votes := votes opt + 1\<rparr>) (options s),
            users := AList.map_entry tok (\<lambda>u. u\<lparr>voted := True, vote_option := Some k\<rparr>) (users s)\<rparr>"
  have ok: "submit_vote s tok k = Inr ?s'"
    using a b by (intro submit_vote_ok) auto
  have kin: "k \<in> fst ` set (options s)"
    using b by (metis map_of_eq_None_iff option.distinct(1))
  have again: "submit_vote ?s' tok k2 = Inl (HTTPException 400 AlreadyVoted)" for k2
    using a b by (simp add: submit_vote_def map_of_map_entry)
  show "\<exists>s'. submit_vote s tok k = Inr s' \<and>
            map_of (options s') k = Some (opt\<lparr>votes := votes opt + 1\<rparr>) \<and>
            (\<forall>k'. k' \<noteq> k \<longrightarrow> map_of (options s') k' = map_of (options s) k') \<and>
            map fst (options s') = map fst (options s) \<and>
            sum_list (vote_counts s') = sum_list (vote_counts s) + 1 \<and>
            map_of (users s') tok = Some (u\<lparr>voted := True, vote_option := Some k\<rparr>) \<and>
            (\<forall>t'. t' \<noteq> tok \<longrightarrow> map_of (users s') t' = map_of (users s) t') \<and>
            map fst (users s') = map fst (users s) \<and>
            game_status s' = game_status s \<and> round_no s' = round_no s \<and>
            eliminated_users s' = eliminated_users s \<and> round_history s' = round_history s \<and>
            (\<forall>k2. submit_vote s' tok k2 = Inl (HTTPException 400 AlreadyVoted))"
    unfolding ok
    using a b again
    by (simp add: map_of_map_entry map_entry_keys vote_counts_def sum_votes_map_entry [OF kin])
qed (auto simp: submit_vote_def apply_event_def step_def key_in_iff split: option.splits)

subsection \<open>Invariants of the runs\<close>

lemma exec_invariant:
  assumes "admissible s es" and "I s"
    and "\<And>s e. I s \<Longrightarrow> uuid_ok s e \<Longrightarrow> I (apply_event s e)"
  shows "I (exec s es)"
  using assms(1,2)
proof (induction es arbitrary: s)
  case Nil
  then show ?case by simp
next
  case (Cons e es)
  then show ?case by (auto intro: assms(3))
qed

lemma exec_append: "exec s (es @ fs) = exec (exec s es) fs"
  by (induction es arbitrary: s) auto

lemma admissible_append:
  "admissible s (es @ fs) \<longleftrightarrow> admissible s es \<and> admissible (exec s es) fs"
  by (induction es arbitrary: s) auto

text \<open>What a successful request gives, request by request.\<close>

lemma register_user_result:
  assumes "register_user s nm uuid now = Inr (r, s')"
  shows "s' = s \<or>
         s' = s\<lparr>users := AList.update uuid
                  \<lparr>name = nm, voted = False, vote_option = None, eliminated = False,
                   joined_at = now\<rparr> (users s)\<rparr>"
  using assms
  by (auto simp: register_user_def Let_def split: option.splits if_splits)

lemma next_round_result:
  assumes "next_round s new_options = Inr s'"
  shows "\<exists>us toks survs names.
           eliminate s = Inr (us, toks, survs) \<and>
           game_status s = Result \<and>
           s' = s\<lparr>users := reset_vote_status us,
                  eliminated_users := eliminated_users s \<union> set toks,
                  round_history := round_history s @
                     [\<lparr>h_round = round_no s,
                       h_options = map (\<lambda>(k, opt). (oname opt, votes opt)) (options s),
                       is_tie = compute_is_tie (vote_counts s),
                       survivors = survs, h_eliminated = names\<rparr>],
                  round_no := round_no s + 1,
                  game_status := Waiting,
                  options := (case new_options of None \<Rightarrow> [] | Some names \<Rightarrow> install_options [] 0 names)\<rparr>"
proof -
  have new: "(case new_options of None \<Rightarrow> [] | Some [] \<Rightarrow> [] | Some names \<Rightarrow> install_options [] 0 names)
        = (case new_options of None \<Rightarrow> [] | Some names \<Rightarrow> install_options [] 0 names)"
    by (auto split: option.splits list.splits)
  show ?thesis
    using assms unfolding next_round_def new
    by (auto split: if_splits sum.splits prod.splits simp del: install_options.simps)
qed

lemma submit_vote_result:
  assumes "submit_vote s tok k = Inr s'"
  shows "\<exists>u. map_of (users s) tok = Some u \<and> \<not> eliminated u \<and> \<not> voted u \<and>
             game_status s = Voting \<and> k \<in> fst ` set (options s) \<and>
             s' = s\<lparr>options := AList.map_entry k (\<lambda>opt. opt\<lparr>votes := votes opt + 1\<rparr>) (options s),
                    users := AList.map_entry tok (\<lambda>u. u\<lparr>voted := True, vote_option := Some k\<rparr>) (users s)\<rparr>"
  using assms by (simp add: submit_vote_def split: option.splits if_splits)

lemma create_options_result:
  assumes "create_options s names = Inr s'"
  shows "names \<noteq> [] \<and>
         s' = s\<lparr>options := install_options [] 0 names, users := reset_vote_status (users s)\<rparr>"
  using assms by (cases names) (simp_all add: create_options_def split: if_splits)

lemma load_preset_options_result:
  assumes "load_preset_options s preset = Inr s'"
  shows "\<exists>names. preset = Some names \<and> names \<noteq> [] \<and>
         s' = s\<lparr>options := install_options [] 0 names, users := reset_vote_status (users s)\<rparr>"
  using assms
  by (simp add: load_preset_options_def split: option.splits list.splits del: install_options.simps)

lemma start_voting_result:
  "start_voting s = Inr s' \<Longrightarrow> options s \<noteq> [] \<and> s' = s\<lparr>game_status := Voting\<rparr>"
  by (simp add: start_voting_def split: if_splits)

lemma end_voting_result:
  "end_voting s = Inr s' \<Longrightarrow> game_status s = Voting \<and> s' = s\<lparr>game_status := Result\<rparr>"
  by (simp add: end_voting_def split: if_splits)

lemma step_register:
  assumes "step s (Register raw uuid now) = Inr s'"
  shows "\<exists>nm. validate_name raw = Inr nm \<and>
           (s' = s \<or>
            s' = s\<lparr>users := AList.update uuid
                  \<lparr>name = nm, voted = False, vote_option = None, eliminated = False,
                   joined_at = now\<rparr> (users s)\<rparr>)"
  using assms
  by (auto simp: step_def split: sum.splits dest: register_user_result)

text \<open>A request either leaves the store as it was or succeeds.\<close>

lemma apply_event_cases:
  "apply_event s e = s \<or> (\<exists>s'. step s e = Inr s' \<and> apply_event s e = s')"
  by (simp add: apply_event_def split: sum.splits)

lemma step_simps:
  "step s (Vote tok k) = submit_vote s tok k"
  "step s (CreateOptions names) = create_options s names"
  "step s (LoadPreset preset) = load_preset_options s preset"
  "step s StartVoting = start_voting s"
  "step s EndVoting = end_voting s"
  "step s (NextRound new_options) = next_round s new_options"
  "step s Reset = Inr reset"
  by (simp_all add: step_def)

lemma install_options_votes:
  "(k, opt) \<in> set (install_options [] 0 names) \<Longrightarrow> votes opt = 0"
  by (auto simp: install_options_fresh)

lemma install_options_nonempty: "names \<noteq> [] \<Longrightarrow> install_options [] 0 names \<noteq> []"
  by (cases names) (simp_all add: install_options_fresh del: install_options.simps)

lemma sum_list_zero: "\<forall>x \<in> set xs. f x = (0::int) \<Longrightarrow> sum_list (map f xs) = 0"
  by (induction xs) auto

lemma total_votes_install [simp]:
  "sum_list (map (\<lambda>(k, opt). votes opt) (install_options [] 0 names)) = 0"
  by (rule sum_list_zero) (auto dest: install_options_votes)

lemma voted_reset [simp]:
  "filter (\<lambda>(tok, u). voted u \<and> \<not> eliminated u) (reset_vote_status us) = []"
  by (induction us) (auto simp: reset_vote_status_def split: if_splits)

lemma map_entry_Nil: "AList.map_entry k f al = [] \<longleftrightarrow> al = []"
  by (cases al) auto

text \<open>In the voting and result phases there are options.\<close>

lemma options_step:
  assumes inv: "game_status s \<noteq> Waiting \<longrightarrow> options s \<noteq> []"
  shows "game_status (apply_event s e) \<noteq> Waiting \<longrightarrow> options (apply_event s e) \<noteq> []"
proof -
  consider "apply_event s e = s" | s' where "step s e = Inr s'" "apply_event s e = s'"
    using apply_event_cases by blast
  then show ?thesis
  proof cases
    case 1
    then show ?thesis using inv by simp
  next
    case 2
    have "game_status s' \<noteq> Waiting \<longrightarrow> options s' \<noteq> []"
    proof (cases e)
      case (Register raw uuid now)
      with 2(1) step_register show ?thesis using inv by fastforce
    next
      case (Vote tok k)
      with 2(1) submit_vote_result [of s tok k s'] show ?thesis
        using inv by (auto simp: step_simps map_entry_Nil)
    next
      case (CreateOptions names)
      with 2(1) create_options_result [of s names s'] show ?thesis
        by (auto simp: step_simps install_options_nonempty simp del: install_options.simps)
    next
      case (LoadPreset preset)
      with 2(1) load_preset_options_result [of s preset s'] show ?thesis
        by (auto simp: step_simps install_options_nonempty simp del: install_options.simps)
    next
      case StartVoting
      with 2(1) start_voting_result [of s s'] show ?thesis by (auto simp: step_simps)
    next
      case EndVoting
      with 2(1) end_voting_result [of s s'] show ?thesis using inv by (auto simp: step_simps)
    next
      case (NextRound new_options)
      with 2(1) next_round_result [of s new_options s'] show ?thesis
        by (auto simp: step_simps simp del: install_options.simps)
    next
      case Reset
      with 2(1) show ?thesis by (auto simp: step_simps reset_def)
    qed
    with 2(2) show ?thesis by simp
  qed
qed

lemma options_reachable:
  assumes "admissible reset es"
  shows "game_status (exec reset es) \<noteq> Waiting \<longrightarrow> options (exec reset es) \<noteq> []"
proof (rule exec_invariant [OF assms])
  show "game_status reset \<noteq> Waiting \<longrightarrow> options reset \<noteq> []" by (simp add: reset_def)
next
  fix s :: store and e
  assume "game_status s \<noteq> Waiting \<longrightarrow> options s \<noteq> []"
  then show "game_status (apply_event s e) \<noteq> Waiting \<longrightarrow> options (apply_event s e) \<noteq> []"
    by (rule options_step)
qed

lemma eliminate_keys:
  "eliminate s = Inr (us, toks, survs) \<Longrightarrow> map fst us = map fst (users s)"
  by (auto simp: eliminate_def tie_loop_eq majority_loop_eq split: if_splits sum.splits)

text \<open>The tokens are distinct.\<close>

lemma keys_step:
  assumes inv: "distinct (map fst (users s))"
  shows "distinct (map fst (users (apply_event s e)))"
proof -
  consider "apply_event s e = s" | s' where "step s e = Inr s'" "apply_event s e = s'"
    using apply_event_cases by blast
  then show ?thesis
  proof cases
    case 1
    then show ?thesis using inv by simp
  next
    case 2
    have "distinct (map fst (users s'))"
    proof (cases e)
      case (Register raw uuid now)
      with 2(1) step_register [of s raw uuid now s'] show ?thesis
        using inv by (auto simp: distinct_update)
    next
      case (Vote tok k)
      with 2(1) submit_vote_result [of s tok k s'] show ?thesis
        using inv by (auto simp: step_simps map_entry_keys)
    next
      case (CreateOptions names)
      with 2(1) create_options_result [of s names s'] show ?thesis
        using inv by (auto simp: step_simps reset_vote_status_keys simp del: install_options.simps)
    next
      case (LoadPreset preset)
      with 2(1) load_preset_options_result [of s preset s'] show ?thesis
        using inv by (auto simp: step_simps reset_vote_status_keys simp del: install_options.simps)
    next
      case StartVoting
      with 2(1) start_voting_result [of s s'] show ?thesis using inv by (auto simp: step_simps)
    next
      case EndVoting
      with 2(1) end_voting_result [of s s'] show ?thesis using inv by (auto simp: step_simps)
    next
      case (NextRound new_options)
      with 2(1) next_round_result [of s new_options s'] show ?thesis
        using inv
        by (auto simp: step_simps reset_vote_status_keys eliminate_keys simp del: install_options.simps)
    next
      case Reset
      with 2(1) show ?thesis by (auto simp: step_simps reset_def)
    qed
    with 2(2) show ?thesis by simp
  qed
qed

lemma keys_reachable:
  assumes "admissible reset es"
  shows "distinct (map fst (users (exec reset es)))"
proof (rule exec_invariant [OF assms])
  show "distinct (map fst (users reset))" by (simp add: reset_def)
next
  fix s :: store and e
  assume "distinct (map fst (users s))"
  then show "distinct (map fst (users (apply_event s e)))" by (rule keys_step)
qed

text \<open>The tallies add up to the number of participants in the game who have voted.\<close>

lemma voted_map_entry:
  "map_of us tok = Some u \<Longrightarrow> \<not> voted u \<Longrightarrow> \<not> eliminated u \<Longrightarrow>
   length (filter (\<lambda>(t, u). voted u \<and> \<not> eliminated u)
      (AList.map_entry tok (\<lambda>u. u\<lparr>voted := True, vote_option := Some k\<rparr>) us))
   = Suc (length (filter (\<lambda>(t, u). voted u \<and> \<not> eliminated u) us))"
  by (induction us) (auto split: if_splits)

lemma tally_step:
  assumes inv: "total_votes s = int (voted_count s)" and fresh: "uuid_ok s e"
  shows "total_votes (apply_event s e) = int (voted_count (apply_event s e))"
proof -
  consider "apply_event s e = s" | s' where "step s e = Inr s'" "apply_event s e = s'"
    using apply_event_cases by blast
  then show ?thesis
  proof cases
    case 1
    then show ?thesis using inv by simp
  next
    case 2
    have "total_votes s' = int (voted_count s')"
    proof (cases e)
      case (Register raw uuid now)
      from fresh Register have "uuid \<notin> fst ` set (users s)" by (simp add: uuid_ok_def)
      with Register 2(1) step_register [of s raw uuid now s'] show ?thesis
        using inv by (auto simp: total_votes_def voted_count_def update_fresh)
    next
      case (Vote tok k)
      with 2(1) have sv: "submit_vote s tok k = Inr s'" by (simp add: step_simps)
      from submit_vote_result [OF sv] obtain u
        where u: "map_of (users s) tok = Some u" "\<not> voted u" "\<not> eliminated u"
          and kin: "k \<in> fst ` set (options s)"
          and s': "s' = s\<lparr>options := AList.map_entry k (\<lambda>opt. opt\<lparr>votes := votes opt + 1\<rparr>) (options s),
                    users := AList.map_entry tok (\<lambda>u. u\<lparr>voted := True, vote_option := Some k\<rparr>) (users s)\<rparr>"
        by blast
      show ?thesis
        unfolding s' using inv
        by (simp add: total_votes_def voted_count_def sum_votes_map_entry [OF kin]
            voted_map_entry [OF u])
    next
      case (CreateOptions names)
      with 2(1) create_options_result [of s names s'] show ?thesis
        by (auto simp: step_simps total_votes_def voted_count_def simp del: install_options.simps)
    next
      case (LoadPreset preset)
      with 2(1) load_preset_options_result [of s preset s'] show ?thesis
        by (auto simp: step_simps total_votes_def voted_count_def simp del: install_options.simps)
    next
      case StartVoting
      with 2(1) start_voting_result [of s s'] show ?thesis
        using inv by (auto simp: step_simps total_votes_def voted_count_def)
    next
      case EndVoting
      with 2(1) end_voting_result [of s s'] show ?thesis
        using inv by (auto simp: step_simps total_votes_def voted_count_def)
    next
      case (NextRound new_options)
      with 2(1) next_round_result [of s new_options s'] show ?thesis
        by (auto simp: step_simps total_votes_def voted_count_def split: option.splits
                 simp del: install_options.simps)
    next
      case Reset
      with 2(1) show ?thesis by (auto simp: step_simps reset_def total_votes_def voted_count_def)
    qed
    with 2(2) show ?thesis by simp
  qed
qed

lemma tally_reachable:
  assumes "admissible reset es"
  shows "total_votes (exec reset es) = int (voted_count (exec reset es))"
proof (rule exec_invariant [OF assms])
  show "total_votes reset = int (voted_count reset)"
    by (simp add: reset_def total_votes_def voted_count_def)
next
  fix s :: store and e
  assume "total_votes s = int (voted_count s)" and "uuid_ok s e"
  then show "total_votes (apply_event s e) = int (voted_count (apply_event s e))"
    by (rule tally_step)
qed

lemma voted_le_users: "voted_count s \<le> user_count s"
proof -
  have "length (filter (\<lambda>(t, u). voted u \<and> \<not> eliminated u) us)
        \<le> length (filter (\<lambda>(t, u). \<not> eliminated u) us)" for us :: "(string \<times> user) list"
    by (induction us) auto
  then show ?thesis by (simp add: voted_count_def user_count_def)
qed

text \<open>
  Claim C8. In every state reached from the initial store by registrations, votes,
  option settings, preset loads, starts and ends of voting, round advances and resets,
  the tallies of the options add up to the number of participants who are not
  eliminated and have voted, which is at most the number of participants who are not
  eliminated.
\<close>

theorem tally_conservation:
  assumes "admissible reset es"
  shows "total_votes (exec reset es) = int (voted_count (exec reset es)) \<and>
         total_votes (exec reset es) \<le> int (user_count (exec reset es))"
  using tally_reachable [OF assms] voted_le_users [of "exec reset es"] by simp

text \<open>
  Claim C10. In every state reached from the initial store, the option dictionary is not
  empty when the phase is voting or result. So in the result phase the maximum of the
  tallies is taken over a sequence that is not empty, \<open>max\<close> does not raise, and
  \<open>next_round\<close> returns.
\<close>

theorem options_present:
  assumes "admissible reset es"
  shows "(game_status (exec reset es) = Voting \<or> game_status (exec reset es) = Result \<longrightarrow>
            options (exec reset es) \<noteq> []) \<and>
         (game_status (exec reset es) = Result \<longrightarrow>
            vote_counts (exec reset es) \<noteq> [] \<and>
            max_votes (exec reset es) = Inr (Max (set (vote_counts (exec reset es)))) \<and>
            (\<forall>new_options. \<exists>s'. next_round (exec reset es) new_options = Inr s'))"
proof -
  let ?s = "exec reset es"
  have opts: "game_status ?s \<noteq> Waiting \<longrightarrow> options ?s \<noteq> []"
    by (rule options_reachable [OF assms])
  have keys: "distinct (map fst (users ?s))" by (rule keys_reachable [OF assms])
  show ?thesis
  proof (intro conjI impI allI)
    assume "game_status ?s = Voting \<or> game_status ?s = Result"
    with opts show "options ?s \<noteq> []" by auto
  next
    assume r: "game_status ?s = Result"
    with opts show "vote_counts ?s \<noteq> []" by simp
  next
    assume r: "game_status ?s = Result"
    with opts show "max_votes ?s = Inr (Max (set (vote_counts ?s)))"
      by (simp add: max_votes_eq)
  next
    fix new_options
    assume r: "game_status ?s = Result"
    with opts have "options ?s \<noteq> []" by simp
    from next_round_ok [OF r this keys, of new_options]
    show "\<exists>s'. next_round ?s new_options = Inr s'" by blast
  qed
qed


text \<open>
  Claim C3. When \<open>next_round\<close> runs in the result phase of a reached state in which every
  tally is 0, the round is recorded as not a tie, the maximum tally is 0, the majority
  options are all the options, every participant is eliminated afterwards and the
  survivor list is empty.
\<close>

theorem all_zero_round:
  assumes "admissible reset es" and "game_status (exec reset es) = Result"
    and "\<forall>(k, opt) \<in> set (options (exec reset es)). votes opt = 0"
  shows "\<exists>s' h. next_round (exec reset es) new_options = Inr s' \<and>
           round_history s' = round_history (exec reset es) @ [h] \<and>
           \<not> is_tie h \<and>
           max_votes (exec reset es) = Inr 0 \<and>
           majority_options (exec reset es) 0 = map (\<lambda>(k, opt). oid opt) (options (exec reset es)) \<and>
           (\<forall>(t, u) \<in> set (users s'). eliminated u) \<and>
           survivors h = [] \<and>
           h_eliminated h =
             map (\<lambda>(t, u). name u) (filter (\<lambda>(t, u). \<not> eliminated u) (users (exec reset es))) \<and>
           eliminated_users s' = eliminated_users (exec reset es) \<union>
             set (map fst (filter (\<lambda>(t, u). \<not> eliminated u) (users (exec reset es))))"
proof -
  let ?s = "exec reset es"
  have opts: "options ?s \<noteq> []"
    using options_reachable [OF assms(1)] assms(2) by simp
  have keys: "distinct (map fst (users ?s))" by (rule keys_reachable [OF assms(1)])
  have zero: "\<forall>x \<in> set (options ?s). (\<lambda>(k, opt). votes opt) x = 0"
    using assms(3) by auto
  have "total_votes ?s = 0"
    unfolding total_votes_def by (rule sum_list_zero [OF zero])
  with tally_reachable [OF assms(1)] have "voted_count ?s = 0" by simp
  then have nobody: "\<forall>(t, u) \<in> set (users ?s). \<not> eliminated u \<longrightarrow> \<not> voted u"
    by (auto simp: voted_count_def filter_empty_conv)
  have counts: "set (vote_counts ?s) = {0}"
    using opts zero by (cases "options ?s") (auto simp: vote_counts_def)
  have no_tie: "\<not> compute_is_tie (vote_counts ?s)"
    using counts by (auto simp: compute_is_tie_iff)
  have mx: "max_votes ?s = Inr 0"
    by (simp add: max_votes_eq [OF opts] counts)
  have maj: "majority_options ?s 0 = map (\<lambda>(k, opt). oid opt) (options ?s)"
  proof -
    have "filter (\<lambda>(k, opt). votes opt = 0) (options ?s) = options ?s"
      using zero by (auto simp: filter_id_conv)
    then show ?thesis by (simp add: majority_options_def)
  qed
  have out: "filter (\<lambda>(t, u). \<not> eliminated u \<and> condemned ?s u) (users ?s)
           = filter (\<lambda>(t, u). \<not> eliminated u) (users ?s)"
    by (rule filter_cong) (use nobody no_tie in \<open>auto simp: condemned_def\<close>)
  have stay: "filter (\<lambda>(t, u). \<not> eliminated u \<and> \<not> condemned ?s u) (users ?s) = []"
    using nobody no_tie by (auto simp: filter_empty_conv condemned_def)
  have gone: "\<forall>(t, u) \<in> set (map (\<lambda>(t, u). (t, after_round ?s u)) (users ?s)). eliminated u"
    using nobody no_tie by (auto simp: after_round_def condemned_def)
  show ?thesis
    unfolding next_round_ok [OF assms(2) opts keys]
    using gone mx maj
    by (simp add: no_tie out stay)
qed

subsection \<open>The sample sessions\<close>

lemma majority_store_value:
  "majority_store =
   \<lparr>users =
    [(''t1'', \<lparr>name = ''Ann'', voted = True, vote_option = Some ''option_1'',
         eliminated = False, joined_at = ''09:00''\<rparr>),
     (''t2'', \<lparr>name = ''Bob'', voted = True, vote_option = Some ''option_1'',
         eliminated = False, joined_at = ''09:01''\<rparr>),
     (''t3'', \<lparr>name = ''Cy'', voted = True, vote_option = Some ''option_2'',
         eliminated = False, joined_at = ''09:02''\<rparr>),
     (''t4'', \<lparr>name = ''Dee'', voted = False, vote_option = None,
         eliminated = False, joined_at = ''09:03''\<rparr>),
     (''t5'', \<lparr>name = ''Eve'', voted = False, vote_option = None, eliminated = True,
         joined_at = ''09:04''\<rparr>)],
    options =
      [(''option_1'', \<lparr>oid = ''option_1'', oname = ''Red'', votes = 2\<rparr>),
       (''option_2'', \<lparr>oid = ''option_2'', oname = ''Blue'', votes = 1\<rparr>)],
    game_status = Result, round_no = 2, eliminated_users = {''t5''},
    round_history =
      [\<lparr>h_round = 1, h_options = [(''X'', 2), (''Y'', 2)], is_tie = True,
          survivors = [''Ann'', ''Bob'', ''Cy'', ''Dee''],
          h_eliminated = [''Eve'']\<rparr>]\<rparr>"
  by code_simp

lemma tie_store_value:
  "tie_store =
   \<lparr>users =
    [(''t1'', \<lparr>name = ''Ann'', voted = True, vote_option = Some ''option_1'',
         eliminated = False, joined_at = ''09:00''\<rparr>),
     (''t2'', \<lparr>name = ''Bob'', voted = True, vote_option = Some ''option_1'',
         eliminated = False, joined_at = ''09:01''\<rparr>),
     (''t3'', \<lparr>name = ''Cy'', voted = True, vote_option = Some ''option_2'',
         eliminated = False, joined_at = ''09:02''\<rparr>),
     (''t4'', \<lparr>name = ''Dee'', voted = True, vote_option = Some ''option_2'',
         eliminated = False, joined_at = ''09:03''\<rparr>),
     (''t5'', \<lparr>name = ''Eve'', voted = False, vote_option = None,
         eliminated = False, joined_at = ''09:04''\<rparr>)],
    options =
      [(''option_1'', \<lparr>oid = ''option_1'', oname = ''X'', votes = 2\<rparr>),
       (''option_2'', \<lparr>oid = ''option_2'', oname = ''Y'', votes = 2\<rparr>)],
    game_status = Result, round_no = 1, eliminated_users = {},
    round_history = []\<rparr>"
  by code_simp

theorem next_round_majority_witness:
  "\<exists>s' h. next_round majority_store None = Inr s' \<and>
     users s' =
       [(''t1'', \<lparr>name = ''Ann'', voted = True, vote_option = Some ''option_1'',
           eliminated = True, joined_at = ''09:00''\<rparr>),
        (''t2'', \<lparr>name = ''Bob'', voted = True, vote_option = Some ''option_1'',
           eliminated = True, joined_at = ''09:01''\<rparr>),
        (''t3'', \<lparr>name = ''Cy'', voted = False, vote_option = None,
           eliminated = False, joined_at = ''09:02''\<rparr>),
        (''t4'', \<lparr>name = ''Dee'', voted = False, vote_option = None,
           eliminated = True, joined_at = ''09:03''\<rparr>),
        (''t5'', \<lparr>name = ''Eve'', voted = False, vote_option = None, eliminated = True,
           joined_at = ''09:04''\<rparr>)] \<and>
     eliminated_users s' = {''t1'', ''t2'', ''t4'', ''t5''} \<and>
     round_history s' =
       [\<lparr>h_round = 1, h_options = [(''X'', 2), (''Y'', 2)], is_tie = True,
          survivors = [''Ann'', ''Bob'', ''Cy'', ''Dee''], h_eliminated = [''Eve'']\<rparr>, h] \<and>
     \<not> is_tie h \<and>
     h_eliminated h = [''Ann'', ''Bob'', ''Dee''] \<and> survivors h = [''Cy'']"
proof -
  note v = majority_store_value
  have h1: "game_status majority_store = Result" by (simp add: v)
  have h2: "options majority_store \<noteq> []" by (simp add: v)
  have h3: "distinct (map fst (users majority_store))" by (simp add: v)
  have h4: "\<not> (\<exists>c>0. \<forall>(k, opt) \<in> set (options majority_store). votes opt = c)"
    by (simp add: v)
  have m: "Max ((\<lambda>(k, opt). votes opt) ` set (options majority_store)) = 2" by (simp add: v)
  show ?thesis
    using next_round_majority [OF h1 h2 h3 h4, of None]
    unfolding Let_def m
    by (simp add: v)
qed


theorem next_round_tie_witness:
  "\<exists>s' h. next_round tie_store None = Inr s' \<and>
     round_history s' = [h] \<and>
     is_tie h \<and>
     users s' =
       [(''t1'', \<lparr>name = ''Ann'', voted = False, vote_option = None,
           eliminated = False, joined_at = ''09:00''\<rparr>),
        (''t2'', \<lparr>name = ''Bob'', voted = False, vote_option = None,
           eliminated = False, joined_at = ''09:01''\<rparr>),
        (''t3'', \<lparr>name = ''Cy'', voted = False, vote_option = None,
           eliminated = False, joined_at = ''09:02''\<rparr>),
        (''t4'', \<lparr>name = ''Dee'', voted = False, vote_option = None,
           eliminated = False, joined_at = ''09:03''\<rparr>),
        (''t5'', \<lparr>name = ''Eve'', voted = False, vote_option = None, eliminated = True,
           joined_at = ''09:04''\<rparr>)] \<and>
     eliminated_users s' = {''t5''} \<and>
     h_eliminated h = [''Eve''] \<and> survivors h = [''Ann'', ''Bob'', ''Cy'', ''Dee'']"
proof -
  note v = tie_store_value
  have h1: "game_status tie_store = Result" by (simp add: v)
  have h2: "options tie_store \<noteq> []" by (simp add: v)
  have h3: "distinct (map fst (users tie_store))" by (simp add: v)
  have t: "\<exists>c>0. \<forall>(k, opt) \<in> set (options tie_store). votes opt = c"
    by (simp add: v)
  show ?thesis
    using next_round_tie [OF h1 h2 h3, of None]
    unfolding t
    by (simp add: v cong: conj_cong)
qed

lemma option_id_values:
  "option_id 1 = ''option_1''" "option_id (Suc 0) = ''option_1''"
  "option_id 2 = ''option_2''" "option_id (Suc (Suc 0)) = ''option_2''"
  by code_simp+

theorem next_round_advances_witness:
  "\<exists>s' h. next_round majority_store (Some [''P'', ''Q'']) = Inr s' \<and>
     round_history s' =
       [\<lparr>h_round = 1, h_options = [(''X'', 2), (''Y'', 2)], is_tie = True,
          survivors = [''Ann'', ''Bob'', ''Cy'', ''Dee''], h_eliminated = [''Eve'']\<rparr>, h] \<and>
     h_round h = 2 \<and>
     h_options h = [(''Red'', 2), (''Blue'', 1)] \<and>
     \<not> is_tie h \<and>
     round_no s' = 3 \<and>
     game_status s' = Waiting \<and>
     options s' = [(''option_1'', \<lparr>oid = ''option_1'', oname = ''P'', votes = 0\<rparr>),
                   (''option_2'', \<lparr>oid = ''option_2'', oname = ''Q'', votes = 0\<rparr>)]"
proof -
  note v = majority_store_value
  have h1: "game_status majority_store = Result" by (simp add: v)
  have h2: "options majority_store \<noteq> []" by (simp add: v)
  have h3: "distinct (map fst (users majority_store))" by (simp add: v)
  from next_round_advances [OF h1 h2 h3, of "Some [''P'', ''Q'']"]
  obtain s' h where r: "next_round majority_store (Some [''P'', ''Q'']) = Inr s'"
     "round_history s' = round_history majority_store @ [h]"
     "h_round h = round_no majority_store"
     "h_options h = map (\<lambda>(k, opt). (oname opt, votes opt)) (options majority_store)"
     "is_tie h \<longleftrightarrow> (\<exists>c>0. \<forall>(k, opt) \<in> set (options majority_store). votes opt = c)"
     "round_no s' = round_no majority_store + 1"
     "game_status s' = Waiting"
     "options s' = (case Some [''P'', ''Q''] of
                           None \<Rightarrow> []
                         | Some names \<Rightarrow>
                             map (\<lambda>(j, nm). (option_id (j + 1),
                                    \<lparr>oid = option_id (j + 1), oname = nm, votes = 0\<rparr>))
                               (enumerate 0 names))"
    by (elim exE conjE)
  show ?thesis
    using r by (simp add: v option_id_values)
qed

lemma voting_store_value:
  "voting_store =
   \<lparr>users =
    [(''t1'', \<lparr>name = ''Ann'', voted = True, vote_option = Some ''option_1'',
         eliminated = False, joined_at = ''09:00''\<rparr>),
     (''t2'', \<lparr>name = ''Bob'', voted = True, vote_option = Some ''option_1'',
         eliminated = False, joined_at = ''09:01''\<rparr>),
     (''t3'', \<lparr>name = ''Cy'', voted = True, vote_option = Some ''option_2'',
         eliminated = False, joined_at = ''09:02''\<rparr>),
     (''t4'', \<lparr>name = ''Dee'', voted = False, vote_option = None,
         eliminated = False, joined_at = ''09:03''\<rparr>),
     (''t5'', \<lparr>name = ''Eve'', voted = False, vote_option = None, eliminated = True,
         joined_at = ''09:04''\<rparr>)],
    options =
      [(''option_1'', \<lparr>oid = ''option_1'', oname = ''Red'', votes = 2\<rparr>),
       (''option_2'', \<lparr>oid = ''option_2'', oname = ''Blue'', votes = 1\<rparr>)],
    game_status = Voting, round_no = 2, eliminated_users = {''t5''},
    round_history =
      [\<lparr>h_round = 1, h_options = [(''X'', 2), (''Y'', 2)], is_tie = True,
          survivors = [''Ann'', ''Bob'', ''Cy'', ''Dee''],
          h_eliminated = [''Eve'']\<rparr>]\<rparr>"
  by code_simp

theorem submit_vote_cases_witness:
  "submit_vote voting_store ''t9'' ''option_1'' = Inl (HTTPException 404 UserNotFound) \<and>
   submit_vote voting_store ''t5'' ''option_1'' = Inl (HTTPException 403 UserEliminated) \<and>
   submit_vote voting_store ''t1'' ''option_2'' = Inl (HTTPException 400 AlreadyVoted) \<and>
   submit_vote tie_store ''t5'' ''option_1'' = Inl (HTTPException 400 NotInVotingPhase) \<and>
   submit_vote voting_store ''t4'' ''option_3'' = Inl (HTTPException 400 InvalidOption) \<and>
   (\<exists>s'. submit_vote voting_store ''t4'' ''option_2'' = Inr s' \<and>
      map_of (options s') ''option_2'' = Some \<lparr>oid = ''option_2'', oname = ''Blue'', votes = 2\<rparr> \<and>
      sum_list (vote_counts s') = 4 \<and>
      map_of (users s') ''t4'' =
        Some \<lparr>name = ''Dee'', voted = True, vote_option = Some ''option_2'',
              eliminated = False, joined_at = ''09:03''\<rparr> \<and>
      (\<forall>k2. submit_vote s' ''t4'' k2 = Inl (HTTPException 400 AlreadyVoted)))"
proof (intro conjI)
  note v = voting_store_value
  show "submit_vote voting_store ''t9'' ''option_1'' = Inl (HTTPException 404 UserNotFound)"
    using submit_vote_cases [of voting_store "''t9''" "''option_1''"] by (simp add: v)
  show "submit_vote voting_store ''t5'' ''option_1'' = Inl (HTTPException 403 UserEliminated)"
    using submit_vote_cases [of voting_store "''t5''" "''option_1''"] by (simp add: v)
  show "submit_vote voting_store ''t1'' ''option_2'' = Inl (HTTPException 400 AlreadyVoted)"
    using submit_vote_cases [of voting_store "''t1''" "''option_2''"] by (simp add: v)
  show "submit_vote tie_store ''t5'' ''option_1'' = Inl (HTTPException 400 NotInVotingPhase)"
    using submit_vote_cases [of tie_store "''t5''" "''option_1''"] by (simp add: tie_store_value)
  show "submit_vote voting_store ''t4'' ''option_3'' = Inl (HTTPException 400 InvalidOption)"
    using submit_vote_cases [of voting_store "''t4''" "''option_3''"] by (simp add: v)
  show "\<exists>s'. submit_vote voting_store ''t4'' ''option_2'' = Inr s' \<and>
      map_of (options s') ''option_2'' = Some \<lparr>oid = ''option_2'', oname = ''Blue'', votes = 2\<rparr> \<and>
      sum_list (vote_counts s') = 4 \<and>
      map_of (users s') ''t4'' =
        Some \<lparr>name = ''Dee'', voted = True, vote_option = Some ''option_2'',
              eliminated = False, joined_at = ''09:03''\<rparr> \<and>
      (\<forall>k2. submit_vote s' ''t4'' k2 = Inl (HTTPException 400 AlreadyVoted))"
    using submit_vote_cases [of voting_store "''t4''" "''option_2''"]
    apply (simp add: v vote_counts_def)
    apply (elim exE conjE)
    apply (rule exI)
    apply (intro conjI)
        apply assumption+
    done
qed

theorem tally_conservation_witness:
  "admissible reset (evs_round1 @ evs_round2) \<and> total_votes majority_store = 3 \<and>
   voted_count majority_store = 3 \<and> user_count majority_store = 4"
proof -
  have a: "admissible reset (evs_round1 @ evs_round2)" by code_simp
  have v: "voted_count majority_store = 3" "user_count majority_store = 4"
    by (simp_all add: majority_store_value voted_count_def user_count_def)
  from tally_conservation [OF a]
  have "total_votes majority_store = int (voted_count majority_store)"
    by (simp add: majority_store_def)
  then show ?thesis using a v by simp
qed

theorem options_present_witness:
  "admissible reset (evs_round1 @ evs_round2) \<and> game_status majority_store = Result \<and>
   options majority_store \<noteq> [] \<and> (\<exists>s'. next_round majority_store None = Inr s')"
proof -
  have a: "admissible reset (evs_round1 @ evs_round2)" by code_simp
  have r: "game_status majority_store = Result" by (simp add: majority_store_value)
  from options_present [OF a] r show ?thesis
    using a by (simp add: majority_store_def)
qed

lemma silent_store_value:
  "silent_store =
   \<lparr>users =
    [(''t1'', \<lparr>name = ''Ann'', voted = False, vote_option = None,
         eliminated = False, joined_at = ''09:00''\<rparr>),
     (''t2'', \<lparr>name = ''Bob'', voted = False, vote_option = None,
         eliminated = False, joined_at = ''09:01''\<rparr>)],
    options =
      [(''option_1'', \<lparr>oid = ''option_1'', oname = ''X'', votes = 0\<rparr>),
       (''option_2'', \<lparr>oid = ''option_2'', oname = ''Y'', votes = 0\<rparr>)],
    game_status = Result, round_no = 1, eliminated_users = {},
    round_history = []\<rparr>"
  by code_simp

theorem all_zero_round_witness:
  "\<exists>s' h. next_round silent_store None = Inr s' \<and>
     round_history s' = [h] \<and>
     \<not> is_tie h \<and>
     max_votes silent_store = Inr 0 \<and>
     majority_options silent_store 0 = [''option_1'', ''option_2''] \<and>
     (\<forall>(t, u) \<in> set (users s'). eliminated u) \<and>
     survivors h = [] \<and>
     h_eliminated h = [''Ann'', ''Bob''] \<and>
     eliminated_users s' = {''t1'', ''t2''}"
proof -
  note v = silent_store_value
  have a: "admissible reset evs_silent" by code_simp
  have r: "game_status (exec reset evs_silent) = Result"
    unfolding silent_store_def [symmetric] by (simp add: v)
  have z: "\<forall>(k, opt) \<in> set (options (exec reset evs_silent)). votes opt = 0"
    unfolding silent_store_def [symmetric] by (simp add: v)
  show ?thesis
    using all_zero_round [OF a r z, of None]
    unfolding silent_store_def [symmetric]
    by (simp add: v)
qed

end
